theory Spec2Isabelle
  imports Main "HOL-Library.Word"
begin

unbundle bit_operations_syntax

section \<open>The atomic operations of sync/atomic\<close>

text \<open>
  Go's \<open>int32\<close> and \<open>uint32\<close> are 32-bit words whose arithmetic wraps around. Each atomic
  operation is one indivisible step on the addressed word: it takes the word's content
  and returns the operation's result together with the word's new content.
  \<open>AddInt32\<close> and \<open>AddUint32\<close> return the new value.
\<close>

type_synonym int32 = "32 word"
type_synonym uint32 = "32 word"

definition CompareAndSwapInt32 :: "int32 \<Rightarrow> int32 \<Rightarrow> int32 \<Rightarrow> bool \<times> int32" where
  "CompareAndSwapInt32 v old new = (if v = old then (True, new) else (False, v))"

definition AddInt32 :: "int32 \<Rightarrow> int32 \<Rightarrow> int32 \<times> int32" where
  "AddInt32 v delta = (v + delta, v + delta)"

definition CompareAndSwapUint32 :: "uint32 \<Rightarrow> uint32 \<Rightarrow> uint32 \<Rightarrow> bool \<times> uint32" where
  "CompareAndSwapUint32 v old new = (if v = old then (True, new) else (False, v))"

definition AddUint32 :: "uint32 \<Rightarrow> uint32 \<Rightarrow> uint32 \<times> uint32" where
  "AddUint32 v delta = (v + delta, v + delta)"

definition LoadUint32 :: "uint32 \<Rightarrow> uint32 \<times> uint32" where
  "LoadUint32 v = (v, v)"

section \<open>Goroutines as step functions\<close>

text \<open>
  A method is a step function over its control points. One step is one atomic operation
  on the lock (or one \<open>runtime.Gosched\<close>) followed by the goroutine-local code up to the
  next such operation; it yields the event performed, where control goes, and the lock.
  A method ends by returning a value or by panicking.
\<close>

datatype event = CAS bool | Add uint32 | Load | Gosched

datatype 'r outcome = Return 'r | Panic string

datatype ('pc, 'r) ctl = At 'pc | Done "'r outcome"

text \<open>
  \<open>run fs p pc s\<close> runs method \<open>p\<close> from control point \<open>pc\<close> on lock \<open>s\<close>. The list \<open>fs\<close>
  is what the other goroutines do to the lock: its k-th element is applied just before the
  k-th step of the calling goroutine. The result is the trace of events, the outcome and the
  lock as the last step left it; \<open>None\<close> means the method is still running when the list
  is used up. \<open>call n\<close> is a call with no other goroutine, cut off after \<open>n\<close> steps.
\<close>

fun run :: "('s \<Rightarrow> 's) list \<Rightarrow> ('pc \<Rightarrow> 's \<Rightarrow> event \<times> ('pc, 'r) ctl \<times> 's) \<Rightarrow> 'pc \<Rightarrow> 's
    \<Rightarrow> (event list \<times> 'r outcome \<times> 's) option" where
  "run [] p pc s = None"
| "run (f # fs) p pc s =
     (case p pc (f s) of
        (e, Done r, s') \<Rightarrow> Some ([e], r, s')
      | (e, At pc', s') \<Rightarrow>
          (case run fs p pc' s' of
             None \<Rightarrow> None
           | Some (es, r, s'') \<Rightarrow> Some (e # es, r, s'')))"

definition call :: "nat \<Rightarrow> ('pc \<Rightarrow> 's \<Rightarrow> event \<times> ('pc, 'r) ctl \<times> 's) \<Rightarrow> 'pc \<Rightarrow> 's
    \<Rightarrow> (event list \<times> 'r outcome \<times> 's) option" where
  "call n p pc s = run (replicate n id) p pc s"

section \<open>Mutex\<close>

definition mutexUnlocked :: int32 where
  "mutexUnlocked = 0"

definition mutexLocked :: int32 where
  "mutexLocked = 1"

record Mutex =
  state :: int32

text \<open>
  mutex.go holds a second text of the package, \<open>type Mutex int32\<close>, whose methods pass
  \<open>&m\<close> with \<open>m *Mutex\<close> to sync/atomic. That is a \<open>**Mutex\<close> where an \<open>*int32\<close> is
  required, so that text does not compile; the model is of the struct \<open>Mutex\<close> only.
\<close>

text \<open>The control points of a spin loop: the compare-and-swap and the yield in its body.\<close>

datatype spin_pc = Attempt | Yield

fun Mutex_Lock :: "spin_pc \<Rightarrow> Mutex \<Rightarrow> event \<times> (spin_pc, unit) ctl \<times> Mutex" where
  "Mutex_Lock Attempt m =
     (let (ok, v) = CompareAndSwapInt32 (Mutex.state m) mutexUnlocked mutexLocked
      in (CAS ok, if \<not> ok then At Yield else Done (Return ()), m\<lparr>Mutex.state := v\<rparr>))"
| "Mutex_Lock Yield m = (Gosched, At Attempt, m)"

fun Mutex_TryLock :: "unit \<Rightarrow> Mutex \<Rightarrow> event \<times> (unit, bool) ctl \<times> Mutex" where
  "Mutex_TryLock u m =
     (let (ok, v) = CompareAndSwapInt32 (Mutex.state m) mutexUnlocked mutexLocked
      in (CAS ok, Done (Return ok), m\<lparr>Mutex.state := v\<rparr>))"

fun Mutex_Unlock :: "unit \<Rightarrow> Mutex \<Rightarrow> event \<times> (unit, unit) ctl \<times> Mutex" where
  "Mutex_Unlock u m =
     (let (state, v) = AddInt32 (Mutex.state m) (- mutexLocked)
      in (Add (- mutexLocked),
          if state \<noteq> mutexUnlocked then Done (Panic ''spinlock: unlock of unlocked mutex'')
          else Done (Return ()),
          m\<lparr>Mutex.state := v\<rparr>))"

section \<open>RWMutex\<close>

record RWMutex =
  state :: uint32

definition rwmutexUnlocked :: uint32 where
  "rwmutexUnlocked = 0"

definition rwmutexWrite :: uint32 where
  "rwmutexWrite = push_bit 0 1"

definition rwmutexReadOffset :: uint32 where
  "rwmutexReadOffset = push_bit 1 1"

definition rwmutexUnderflow :: uint32 where
  "rwmutexUnderflow = NOT rwmutexWrite"

definition rwmutexWriterUnset :: uint32 where
  "rwmutexWriterUnset = NOT (rwmutexWrite - 1)"

definition rwmutexReaderDecrease :: uint32 where
  "rwmutexReaderDecrease = NOT (rwmutexReadOffset - 1)"

text \<open>
  \<open>RLock\<close>: the increment, then the polling loop (a load, and a yield when the write bit is
  still set).
\<close>

datatype rlock_pc = Increase | Poll | PollYield

fun RWMutex_RLock :: "rlock_pc \<Rightarrow> RWMutex \<Rightarrow> event \<times> (rlock_pc, unit) ctl \<times> RWMutex" where
  "RWMutex_RLock Increase rw =
     (let (state, v) = AddUint32 (RWMutex.state rw) rwmutexReadOffset
      in (Add rwmutexReadOffset,
          if state AND rwmutexWrite = 0 then Done (Return ()) else At Poll,
          rw\<lparr>RWMutex.state := v\<rparr>))"
| "RWMutex_RLock Poll rw =
     (let (state, v) = LoadUint32 (RWMutex.state rw)
      in (Load,
          if state AND rwmutexWrite = 0 then Done (Return ()) else At PollYield,
          rw\<lparr>RWMutex.state := v\<rparr>))"
| "RWMutex_RLock PollYield rw = (Gosched, At Poll, rw)"

datatype tryrlock_pc = TryIncrease | Undo

fun RWMutex_TryRLock :: "tryrlock_pc \<Rightarrow> RWMutex \<Rightarrow> event \<times> (tryrlock_pc, bool) ctl \<times> RWMutex" where
  "RWMutex_TryRLock TryIncrease rw =
     (let (state, v) = AddUint32 (RWMutex.state rw) rwmutexReadOffset
      in (Add rwmutexReadOffset,
          if state AND rwmutexWrite = 0 then Done (Return True) else At Undo,
          rw\<lparr>RWMutex.state := v\<rparr>))"
| "RWMutex_TryRLock Undo rw =
     (let (state, v) = AddUint32 (RWMutex.state rw) rwmutexReaderDecrease
      in (Add rwmutexReaderDecrease, Done (Return False), rw\<lparr>RWMutex.state := v\<rparr>))"

fun RWMutex_RUnlock :: "unit \<Rightarrow> RWMutex \<Rightarrow> event \<times> (unit, unit) ctl \<times> RWMutex" where
  "RWMutex_RUnlock u rw =
     (let (state, v) = AddUint32 (RWMutex.state rw) rwmutexReaderDecrease
      in (Add rwmutexReaderDecrease,
          if state AND rwmutexUnderflow = rwmutexUnderflow
          then Done (Panic ''spinlock: RUnlock of unlocked RWMutex'')
          else Done (Return ()),
          rw\<lparr>RWMutex.state := v\<rparr>))"

fun RWMutex_Lock :: "spin_pc \<Rightarrow> RWMutex \<Rightarrow> event \<times> (spin_pc, unit) ctl \<times> RWMutex" where
  "RWMutex_Lock Attempt rw =
     (let (ok, v) = CompareAndSwapUint32 (RWMutex.state rw) rwmutexUnlocked rwmutexWrite
      in (CAS ok, if \<not> ok then At Yield else Done (Return ()), rw\<lparr>RWMutex.state := v\<rparr>))"
| "RWMutex_Lock Yield rw = (Gosched, At Attempt, rw)"

fun RWMutex_TryLock :: "unit \<Rightarrow> RWMutex \<Rightarrow> event \<times> (unit, bool) ctl \<times> RWMutex" where
  "RWMutex_TryLock u rw =
     (let (ok, v) = CompareAndSwapUint32 (RWMutex.state rw) rwmutexUnlocked rwmutexWrite
      in (CAS ok, Done (Return ok), rw\<lparr>RWMutex.state := v\<rparr>))"

fun RWMutex_Unlock :: "unit \<Rightarrow> RWMutex \<Rightarrow> event \<times> (unit, unit) ctl \<times> RWMutex" where
  "RWMutex_Unlock u rw =
     (let (state, v) = AddUint32 (RWMutex.state rw) rwmutexWriterUnset
      in (Add rwmutexWriterUnset,
          if state AND rwmutexWrite > 0
          then Done (Panic ''sync: Unlock of unlocked RWMutex'')
          else Done (Return ()),
          rw\<lparr>RWMutex.state := v\<rparr>))"

text \<open>
  The layout of the state word, as the comments on the constants give it: bit 0 is the
  write flag, the bits above it count the readers.
\<close>

definition writeFlag :: "RWMutex \<Rightarrow> bool" where
  "writeFlag rw \<longleftrightarrow> bit (RWMutex.state rw) 0"

definition readerCount :: "RWMutex \<Rightarrow> nat" where
  "readerCount rw = unat (drop_bit 1 (RWMutex.state rw))"

text \<open>The zero values of the two structs.\<close>

definition zeroMutex :: Mutex where
  "zeroMutex = \<lparr>Mutex.state = 0\<rparr>"

definition zeroRWMutex :: RWMutex where
  "zeroRWMutex = \<lparr>RWMutex.state = 0\<rparr>"

text \<open>
  A sequence of read-lock calls on one lock, in the order in which the calls take effect.
  Each call runs to its end before the next starts, with at most \<open>n\<close> steps; the sequence
  goes on only while every call returns normally.
\<close>

datatype rcall = RLockCall | RUnlockCall

fun reader_calls :: "nat \<Rightarrow> rcall list \<Rightarrow> RWMutex \<Rightarrow> RWMutex option" where
  "reader_calls n [] rw = Some rw"
| "reader_calls n (RLockCall # cs) rw =
     (case call n RWMutex_RLock Increase rw of
        Some (es, Return u, rw') \<Rightarrow> reader_calls n cs rw'
      | _ \<Rightarrow> None)"
| "reader_calls n (RUnlockCall # cs) rw =
     (case call n RWMutex_RUnlock () rw of
        Some (es, Return u, rw') \<Rightarrow> reader_calls n cs rw'
      | _ \<Rightarrow> None)"

text \<open>
  \<open>matched j cs\<close>: with \<open>j\<close> read locks held at the start, every RUnlock of the sequence
  releases a read lock that is held, and fewer than \<open>2^31\<close> read locks are held at a time.
\<close>

fun matched :: "nat \<Rightarrow> rcall list \<Rightarrow> bool" where
  "matched j [] = True"
| "matched j (RLockCall # cs) = (Suc j < 2 ^ 31 \<and> matched (Suc j) cs)"
| "matched j (RUnlockCall # cs) = (0 < j \<and> matched (j - 1) cs)"

section \<open>The constants\<close>

lemma rwmutex_constants:
  "rwmutexWrite = 1" "rwmutexReadOffset = 2" "rwmutexUnderflow = - 2"
  "rwmutexWriterUnset = - 1" "rwmutexReaderDecrease = - 2"
  by (simp_all add: rwmutexWrite_def rwmutexReadOffset_def rwmutexUnderflow_def
      rwmutexWriterUnset_def rwmutexReaderDecrease_def)

lemma mutex_constants:
  "mutexUnlocked = 0" "mutexLocked = 1"
  by (simp_all add: mutexUnlocked_def mutexLocked_def)

section \<open>Facts about 32-bit words\<close>

lemma and_minus_2: "(x::32 word) AND - 2 = x - x mod 2"
proof -
  have "NOT x AND (x AND 1) = 0"
    by (simp flip: and.assoc)
  then have "x - (x AND 1) = x AND NOT (x AND 1)"
    by (rule disjunctive_diff_eq_and_not)
  also have "\<dots> = x AND NOT 1"
    by (auto simp: bit_eq_iff bit_simps)
  finally show ?thesis
    by (simp add: and_one_eq)
qed

lemma upper_bits_set_iff:
  "(x::32 word) AND - 2 = - 2 \<longleftrightarrow> (\<forall>i. 1 \<le> i \<and> i < 32 \<longrightarrow> bit x i)"
proof -
  have e: "- 2 = NOT (1::32 word)"
    by simp
  have "x AND NOT 1 = NOT 1 \<longleftrightarrow> (\<forall>i. 1 \<le> i \<and> i < 32 \<longrightarrow> bit x i)"
    by (auto simp: bit_eq_iff bit_and_iff bit_not_iff bit_1_iff)
  then show ?thesis
    unfolding e .
qed

lemma upper_bits_set_unat: "(x::32 word) AND - 2 = - 2 \<longleftrightarrow> 4294967294 \<le> unat x"
  unfolding and_minus_2
  apply unat_arith
  apply simp?
  apply presburger?
  done

lemma underflow_iff_no_reader:
  "((x::32 word) - 2) AND - 2 = - 2 \<longleftrightarrow> unat (drop_bit 1 x) = 0"
  unfolding upper_bits_set_unat drop_bit_eq_div
  apply unat_arith
  apply simp?
  apply presburger?
  done

lemma bit0_add_2: "bit ((x::32 word) + 2) 0 = bit x 0"
  by (simp add: bit_0)

lemma bit0_sub_2: "bit ((x::32 word) - 2) 0 = bit x 0"
  by (simp add: bit_0)

lemma count_sub_2:
  "unat (drop_bit 1 (x::32 word)) \<noteq> 0
    \<Longrightarrow> unat (drop_bit 1 (x - 2)) = unat (drop_bit 1 x) - 1"
  unfolding drop_bit_eq_div
  apply unat_arith
  apply simp?
  apply presburger?
  done

lemma count_add_2:
  "unat (drop_bit 1 (x::32 word)) < 2 ^ 31 - 1
    \<Longrightarrow> unat (drop_bit 1 (x + 2)) = unat (drop_bit 1 x) + 1"
  unfolding drop_bit_eq_div
  apply unat_arith
  apply simp?
  apply presburger?
  done

lemma write_bit_after_decrement: "0 < ((x::32 word) - 1) AND 1 \<longleftrightarrow> \<not> bit x 0"
  unfolding and_one_eq bit_0
  by (simp add: word_greater_zero_iff flip: odd_iff_mod_2_eq_one)

lemma count_sub_1: "bit (x::32 word) 0 \<Longrightarrow> drop_bit 1 (x - 1) = drop_bit 1 x"
  unfolding drop_bit_eq_div bit_0 odd_iff_mod_2_eq_one
  apply unat_arith
  apply simp?
  apply presburger?
  done

lemma bit0_sub_1: "bit ((x::32 word) - 1) 0 \<longleftrightarrow> \<not> bit x 0"
  by (simp add: bit_0)

lemma sub_1_clears_bit0: "bit (x::32 word) 0 \<Longrightarrow> x - 1 = x AND NOT 1"
proof -
  assume "bit x 0"
  then have "x mod 2 = 1"
    by (simp add: bit_0 odd_iff_mod_2_eq_one)
  moreover have "x AND NOT 1 = x - x mod 2"
    using and_minus_2 [of x] by simp
  ultimately show ?thesis
    by simp
qed

lemma write_bit_after_increment: "((x::32 word) + 2) AND 1 = 0 \<longleftrightarrow> \<not> bit x 0"
  unfolding and_one_eq bit_0
  by (simp flip: even_iff_mod_2_eq_zero)

lemma write_bit_load: "(x::32 word) AND 1 = 0 \<longleftrightarrow> \<not> bit x 0"
  unfolding and_one_eq bit_0
  by (simp flip: even_iff_mod_2_eq_zero)

lemma no_reader_cases: "unat (drop_bit 1 (x::32 word)) = 0 \<Longrightarrow> x = 0 \<or> x = 1"
  unfolding drop_bit_eq_div
  apply unat_arith
  apply simp?
  apply presburger?
  done

lemma count_after_underflow:
  "unat (drop_bit 1 (x::32 word)) = 0 \<Longrightarrow> unat (drop_bit 1 (x - 2)) = 2147483647"
  using no_reader_cases [of x] by (auto simp: unat_eq_0 mask_eq_exp_minus_1)

lemma zero_iff_no_reader_no_writer:
  "(x::32 word) = 0 \<longleftrightarrow> unat (drop_bit 1 x) = 0 \<and> \<not> bit x 0"
  using no_reader_cases [of x] by auto

lemma sub_2_mod:
  "unat ((x::32 word) - 2) = (unat x + (2 ^ 32 - 2)) mod 2 ^ 32"
  using unat_word_ariths(1) [of x "- 2"] by simp

section \<open>Calls that take one step\<close>

lemma call_1:
  "call (Suc 0) p pc s =
     (case p pc s of (e, Done r, s') \<Rightarrow> Some ([e], r, s') | (e, At pc', s') \<Rightarrow> None)"
  by (simp add: call_def split: prod.splits ctl.splits)

lemma Mutex_Unlock_call:
  "call (Suc 0) Mutex_Unlock () m =
     Some ([Add (- mutexLocked)],
           (if Mutex.state m = mutexLocked then Return ()
            else Panic ''spinlock: unlock of unlocked mutex''),
           m\<lparr>Mutex.state := Mutex.state m - mutexLocked\<rparr>)"
  by (simp add: call_1 AddInt32_def mutex_constants)

lemma RWMutex_RUnlock_call:
  "call (Suc 0) RWMutex_RUnlock () rw =
     Some ([Add rwmutexReaderDecrease],
           (if readerCount rw = 0 then Panic ''spinlock: RUnlock of unlocked RWMutex''
            else Return ()),
           rw\<lparr>RWMutex.state := RWMutex.state rw - rwmutexReadOffset\<rparr>)"
  by (simp add: call_1 AddUint32_def rwmutex_constants readerCount_def underflow_iff_no_reader)

lemma RWMutex_Unlock_call:
  "call (Suc 0) RWMutex_Unlock () rw =
     Some ([Add rwmutexWriterUnset],
           (if writeFlag rw then Return () else Panic ''sync: Unlock of unlocked RWMutex''),
           rw\<lparr>RWMutex.state := RWMutex.state rw - rwmutexWrite\<rparr>)"
  by (simp add: call_1 AddUint32_def rwmutex_constants writeFlag_def write_bit_after_decrement)

section \<open>Spin loops\<close>

text \<open>The trace of a spin loop that yields: \<open>k\<close> failed attempts, each followed by a yield.\<close>

lemma spin_yield_run:
  assumes A: "\<And>s. p Attempt s =
        (CAS (g s), if \<not> g s then At Yield else Done (Return ()), if g s then acq s else s)"
    and Y: "\<And>s. p Yield s = (Gosched, At Attempt, s)"
  shows "(run fs p Attempt s = Some (es, r, s') \<longrightarrow>
           r = Return () \<and>
           (\<exists>k t. es = concat (replicate k [CAS False, Gosched]) @ [CAS True]
              \<and> g t \<and> s' = acq t))
       \<and> (run fs p Yield s = Some (es, r, s') \<longrightarrow>
           r = Return () \<and>
           (\<exists>k t. es = Gosched # concat (replicate k [CAS False, Gosched]) @ [CAS True]
              \<and> g t \<and> s' = acq t))"
proof (induction fs arbitrary: s es)
  case Nil
  show ?case by simp
next
  case (Cons f fs)
  have att: "run (f # fs) p Attempt s = Some (es, r, s') \<longrightarrow>
           r = Return () \<and>
           (\<exists>k t. es = concat (replicate k [CAS False, Gosched]) @ [CAS True]
              \<and> g t \<and> s' = acq t)"
  proof
    assume R: "run (f # fs) p Attempt s = Some (es, r, s')"
    show "r = Return () \<and>
           (\<exists>k t. es = concat (replicate k [CAS False, Gosched]) @ [CAS True]
              \<and> g t \<and> s' = acq t)"
    proof (cases "g (f s)")
      case True
      with R have "es = [CAS True]" "r = Return ()" "s' = acq (f s)"
        by (simp_all add: A)
      with True have "es = concat (replicate 0 [CAS False, Gosched]) @ [CAS True]
          \<and> g (f s) \<and> s' = acq (f s)"
        by simp
      with \<open>r = Return ()\<close> show ?thesis by blast
    next
      case False
      with R obtain es' where es: "es = CAS False # es'"
        and R': "run fs p Yield (f s) = Some (es', r, s')"
        by (auto simp: A split: option.splits)
      from Cons.IH [of "f s" es'] R' obtain k t where
        "r = Return ()" "es' = Gosched # concat (replicate k [CAS False, Gosched]) @ [CAS True]"
        "g t" "s' = acq t"
        by blast
      with es have "es = concat (replicate (Suc k) [CAS False, Gosched]) @ [CAS True]
          \<and> g t \<and> s' = acq t"
        by simp
      with \<open>r = Return ()\<close> show ?thesis by blast
    qed
  qed
  have yld: "run (f # fs) p Yield s = Some (es, r, s') \<longrightarrow>
           r = Return () \<and>
           (\<exists>k t. es = Gosched # concat (replicate k [CAS False, Gosched]) @ [CAS True]
              \<and> g t \<and> s' = acq t)"
  proof
    assume R: "run (f # fs) p Yield s = Some (es, r, s')"
    then obtain es' where es: "es = Gosched # es'"
      and R': "run fs p Attempt (f s) = Some (es', r, s')"
      by (auto simp: Y split: option.splits)
    from Cons.IH [of "f s" es'] R' obtain k t where
      "r = Return ()" "es' = concat (replicate k [CAS False, Gosched]) @ [CAS True]"
      "g t" "s' = acq t"
      by blast
    with es show "r = Return () \<and>
           (\<exists>k t. es = Gosched # concat (replicate k [CAS False, Gosched]) @ [CAS True]
              \<and> g t \<and> s' = acq t)"
      by blast
  qed
  from att yld show ?case by blast
qed

text \<open>Alone, a spin loop that yields never returns on a lock that is not free.\<close>

lemma spin_yield_alone:
  assumes A: "\<And>s. p Attempt s =
        (CAS (g s), if \<not> g s then At Yield else Done (Return ()), if g s then acq s else s)"
    and Y: "\<And>s. p Yield s = (Gosched, At Attempt, s)"
    and N: "\<not> g s"
  shows "call n p Attempt s = None \<and> call n p Yield s = None"
  unfolding call_def using N
  by (induction n) (simp_all add: A Y)

lemma Mutex_Lock_Attempt:
  "Mutex_Lock Attempt m =
     (CAS (Mutex.state m = mutexUnlocked),
      if \<not> Mutex.state m = mutexUnlocked then At Yield else Done (Return ()),
      if Mutex.state m = mutexUnlocked then m\<lparr>Mutex.state := mutexLocked\<rparr> else m)"
  by (simp add: CompareAndSwapInt32_def)

lemma RWMutex_Lock_Attempt:
  "RWMutex_Lock Attempt rw =
     (CAS (RWMutex.state rw = rwmutexUnlocked),
      if \<not> RWMutex.state rw = rwmutexUnlocked then At Yield else Done (Return ()),
      if RWMutex.state rw = rwmutexUnlocked then rw\<lparr>RWMutex.state := rwmutexWrite\<rparr> else rw)"
  by (simp add: CompareAndSwapUint32_def)

lemmas Mutex_Lock_run =
  spin_yield_run [of Mutex_Lock, OF Mutex_Lock_Attempt Mutex_Lock.simps(2)]
lemmas RWMutex_Lock_run =
  spin_yield_run [of RWMutex_Lock, OF RWMutex_Lock_Attempt RWMutex_Lock.simps(2)]
section \<open>Calls of the RWMutex\<close>

lemma call_2: "call 2 p pc s = run [id, id] p pc s"
  by (simp add: call_def numeral_2_eq_2)

lemma RWMutex_RLock_Increase:
  "RWMutex_RLock Increase rw =
     (Add rwmutexReadOffset,
      if writeFlag rw then At Poll else Done (Return ()),
      rw\<lparr>RWMutex.state := RWMutex.state rw + rwmutexReadOffset\<rparr>)"
  by (simp add: AddUint32_def rwmutex_constants writeFlag_def write_bit_after_increment)

lemma RWMutex_RLock_Poll:
  "RWMutex_RLock Poll rw =
     (Load, if writeFlag rw then At PollYield else Done (Return ()), rw)"
  by (simp add: LoadUint32_def rwmutex_constants writeFlag_def write_bit_load)

lemma RLock_poll_alone:
  "writeFlag rw \<Longrightarrow>
     run (replicate n id) RWMutex_RLock Poll rw = None
     \<and> run (replicate n id) RWMutex_RLock PollYield rw = None"
  by (induction n) (simp_all add: RWMutex_RLock_Poll del: RWMutex_RLock.simps(2))

lemma RWMutex_RLock_call:
  "call (Suc n) RWMutex_RLock Increase rw =
     (if writeFlag rw then None
      else Some ([Add rwmutexReadOffset], Return (),
                 rw\<lparr>RWMutex.state := RWMutex.state rw + rwmutexReadOffset\<rparr>))"
proof (cases "writeFlag rw")
  case True
  then have "writeFlag (rw\<lparr>RWMutex.state := RWMutex.state rw + rwmutexReadOffset\<rparr>)"
    by (simp add: writeFlag_def rwmutex_constants bit0_add_2)
  from RLock_poll_alone [OF this, of n] True show ?thesis
    by (simp add: call_def RWMutex_RLock_Increase del: RWMutex_RLock.simps(1))
next
  case False
  then show ?thesis
    by (simp add: call_def RWMutex_RLock_Increase del: RWMutex_RLock.simps(1))
qed

lemma RWMutex_RUnlock_call_Suc:
  "call (Suc n) RWMutex_RUnlock () rw =
     Some ([Add rwmutexReaderDecrease],
           (if readerCount rw = 0 then Panic ''spinlock: RUnlock of unlocked RWMutex''
            else Return ()),
           rw\<lparr>RWMutex.state := RWMutex.state rw - rwmutexReadOffset\<rparr>)"
  by (simp add: call_def AddUint32_def rwmutex_constants readerCount_def
      underflow_iff_no_reader)

lemma reader_calls_0: "reader_calls 0 (c # cs) rw = None"
  by (cases c) (simp_all add: call_def)

lemma reader_calls_RLock:
  "reader_calls (Suc k) (RLockCall # cs) rw =
     (if writeFlag rw then None
      else reader_calls (Suc k) cs
             (rw\<lparr>RWMutex.state := RWMutex.state rw + rwmutexReadOffset\<rparr>))"
  by (simp add: RWMutex_RLock_call)

lemma reader_calls_RUnlock:
  "reader_calls (Suc k) (RUnlockCall # cs) rw =
     (if readerCount rw = 0 then None
      else reader_calls (Suc k) cs
             (rw\<lparr>RWMutex.state := RWMutex.state rw - rwmutexReadOffset\<rparr>))"
  by (simp add: RWMutex_RUnlock_call_Suc)

lemma count_step_up: "(a::32 word) + 2 * of_nat u = s + 2 + 2 * of_nat l
   \<Longrightarrow> a + 2 * of_nat u = s + 2 * of_nat (Suc l)"
  by (simp add: distrib_left)

lemma count_step_down:
  assumes h: "(a::32 word) + 2 * of_nat u = s - 2 + 2 * of_nat l"
  shows "a + 2 * of_nat (Suc u) = s + 2 * of_nat l"
proof -
  have "a + 2 * of_nat (Suc u) = (a + 2 * of_nat u) + 2"
    by (simp add: distrib_left)
  also have "\<dots> = (s - 2 + 2 * of_nat l) + 2"
    by (simp only: h)
  also have "\<dots> = s + 2 * of_nat l"
    by simp
  finally show ?thesis .
qed

lemma reader_calls_state:
  "reader_calls n cs rw = Some rw' \<Longrightarrow>
     RWMutex.state rw' + 2 * of_nat (count_list cs RUnlockCall) =
       RWMutex.state rw + 2 * of_nat (count_list cs RLockCall)"
proof (induction cs arbitrary: rw)
  case Nil
  then show ?case by simp
next
  case (Cons c cs)
  from Cons.prems obtain k where n: "n = Suc k"
    by (cases n) (simp_all add: reader_calls_0)
  show ?case
  proof (cases c)
    case RLockCall
    let ?rw1 = "rw\<lparr>RWMutex.state := RWMutex.state rw + rwmutexReadOffset\<rparr>"
    from Cons.prems have "reader_calls n cs ?rw1 = Some rw'"
      unfolding RLockCall n reader_calls_RLock by (simp split: if_splits)
    from Cons.IH [OF this]
    have "RWMutex.state rw' + 2 * of_nat (count_list cs RUnlockCall) =
       RWMutex.state rw + 2 + 2 * of_nat (count_list cs RLockCall)"
      by (simp add: rwmutex_constants)
    from count_step_up [OF this] show ?thesis
      unfolding RLockCall by simp
  next
    case RUnlockCall
    let ?rw1 = "rw\<lparr>RWMutex.state := RWMutex.state rw - rwmutexReadOffset\<rparr>"
    from Cons.prems have "reader_calls n cs ?rw1 = Some rw'"
      unfolding RUnlockCall n reader_calls_RUnlock by (simp split: if_splits)
    from Cons.IH [OF this]
    have "RWMutex.state rw' + 2 * of_nat (count_list cs RUnlockCall) =
       RWMutex.state rw - 2 + 2 * of_nat (count_list cs RLockCall)"
      by (simp add: rwmutex_constants)
    from count_step_down [OF this] show ?thesis
      unfolding RUnlockCall by simp
  qed
qed

lemma RWMutex_TryLock_call:
  "call (Suc 0) RWMutex_TryLock () rw =
     Some ([CAS (RWMutex.state rw = rwmutexUnlocked)],
           Return (RWMutex.state rw = rwmutexUnlocked),
           if RWMutex.state rw = rwmutexUnlocked then rw\<lparr>RWMutex.state := rwmutexWrite\<rparr>
           else rw)"
  by (simp add: call_1 CompareAndSwapUint32_def)

lemma RWMutex_TryRLock_TryIncrease:
  "RWMutex_TryRLock TryIncrease rw =
     (Add rwmutexReadOffset,
      if writeFlag rw then At Undo else Done (Return True),
      rw\<lparr>RWMutex.state := RWMutex.state rw + rwmutexReadOffset\<rparr>)"
  by (simp add: AddUint32_def rwmutex_constants writeFlag_def write_bit_after_increment)

lemma RWMutex_TryRLock_Undo:
  "RWMutex_TryRLock Undo rw =
     (Add rwmutexReaderDecrease, Done (Return False),
      rw\<lparr>RWMutex.state := RWMutex.state rw - rwmutexReadOffset\<rparr>)"
  by (simp add: AddUint32_def rwmutex_constants)

lemma Mutex_Lock_call:
  "Mutex.state m = mutexUnlocked \<Longrightarrow>
     call (Suc 0) Mutex_Lock Attempt m
       = Some ([CAS True], Return (), m\<lparr>Mutex.state := mutexLocked\<rparr>)"
  by (simp add: call_1 Mutex_Lock_Attempt del: Mutex_Lock.simps(1))

lemma count_of_readers:
  "j < 2 ^ 31 \<Longrightarrow> unat (drop_bit 1 (2 * of_nat j :: 32 word)) = j"
proof -
  assume j: "j < 2 ^ 31"
  then have a: "unat (of_nat j :: 32 word) = j"
    by (simp add: unat_of_nat)
  have "unat (2 * of_nat j :: 32 word) = (unat (2 :: 32 word) * unat (of_nat j :: 32 word))
      mod 2 ^ LENGTH(32)"
    by (rule unat_word_ariths(2))
  with a j have "unat (2 * of_nat j :: 32 word) = 2 * j"
    by simp
  then show ?thesis
    by (simp add: drop_bit_eq_div unat_div)
qed

lemma no_writer_of_readers: "\<not> bit (2 * of_nat j :: 32 word) 0"
  by (simp add: bit_0)

lemma matched_calls_return:
  "matched j cs \<Longrightarrow> j < 2 ^ 31 \<Longrightarrow>
     reader_calls (Suc k) cs \<lparr>RWMutex.state = 2 * of_nat j\<rparr>
       = Some \<lparr>RWMutex.state =
           2 * of_nat (j + count_list cs RLockCall - count_list cs RUnlockCall)\<rparr>"
proof (induction j cs rule: matched.induct)
  case (1 j)
  then show ?case by simp
next
  case (2 j cs)
  then have "reader_calls (Suc k) cs \<lparr>RWMutex.state = 2 * of_nat (Suc j)\<rparr>
       = Some \<lparr>RWMutex.state =
           2 * of_nat (Suc j + count_list cs RLockCall - count_list cs RUnlockCall)\<rparr>"
    by simp
  moreover have "(2 * of_nat j :: 32 word) + 2 = 2 * of_nat (Suc j)"
    by simp
  ultimately show ?case
    by (simp add: reader_calls_RLock writeFlag_def no_writer_of_readers rwmutex_constants
        del: reader_calls.simps(2) of_nat_Suc)
next
  case (3 j cs)
  then have j: "0 < j" "j - 1 < 2 ^ 31"
    by simp_all
  with 3 have "reader_calls (Suc k) cs \<lparr>RWMutex.state = 2 * of_nat (j - 1)\<rparr>
       = Some \<lparr>RWMutex.state =
           2 * of_nat (j - 1 + count_list cs RLockCall - count_list cs RUnlockCall)\<rparr>"
    by simp
  moreover from j have "(2 * of_nat j :: 32 word) - 2 = 2 * of_nat (j - 1)"
    by (cases j) simp_all
  moreover from j "3.prems" have "readerCount \<lparr>RWMutex.state = 2 * of_nat j\<rparr> \<noteq> 0"
    using count_of_readers [of j] by (simp add: readerCount_def del: One_nat_def)
  moreover from j have "j - 1 + count_list cs RLockCall - count_list cs RUnlockCall
      = j + count_list cs RLockCall - Suc (count_list cs RUnlockCall)"
    by simp
  ultimately show ?case
    by (simp add: reader_calls_RUnlock rwmutex_constants
        del: reader_calls.simps(3) of_nat_Suc)
qed

lemma matched_n_n:
  "j + n < 2 ^ 31
    \<Longrightarrow> matched j (replicate n RLockCall @ replicate (j + n) RUnlockCall)"
proof (induction n arbitrary: j)
  case 0
  show ?case by (induction j) simp_all
next
  case (Suc n)
  from Suc.IH [of "Suc j"] Suc.prems show ?case by simp
qed

lemma count_list_replicate_eq: "count_list (replicate n x) y = (if x = y then n else 0)"
  by (induction n) auto

lemma n_RLock_n_RUnlock:
  "n < 2 ^ 31 \<Longrightarrow>
     reader_calls (Suc k) (replicate n RLockCall @ replicate n RUnlockCall) zeroRWMutex
       = Some zeroRWMutex"
  using matched_calls_return [of 0 "replicate n RLockCall @ replicate n RUnlockCall" k]
    matched_n_n [of 0 n]
  by (simp add: zeroRWMutex_def count_list_replicate_eq)

lemma RLock_calls_add:
  "\<not> bit s 0 \<Longrightarrow>
     reader_calls (Suc k) (replicate n RLockCall @ cs) \<lparr>RWMutex.state = s\<rparr>
       = reader_calls (Suc k) cs \<lparr>RWMutex.state = s + 2 * of_nat n\<rparr>"
proof (induction n arbitrary: s)
  case 0
  show ?case by simp
next
  case (Suc n)
  from Suc.prems have "\<not> bit (s + 2) 0"
    by (simp add: bit0_add_2)
  from Suc.IH [OF this] Suc.prems show ?case
    by (simp add: reader_calls_RLock writeFlag_def rwmutex_constants distrib_left add.assoc
        del: reader_calls.simps(2))
qed

lemma wrap_2_31: "(2 * of_nat (2 ^ 31) :: 32 word) = 0"
  by simp

lemma first_of_2_31: "replicate (2 ^ 31) x = x # replicate (2 ^ 31 - 1) x"
proof -
  have "(2::nat) ^ 31 = Suc (2 ^ 31 - 1)"
    by simp
  then have "replicate (2 ^ 31) x = replicate (Suc (2 ^ 31 - 1)) x"
    by (rule arg_cong)
  then show ?thesis
    by (simp only: replicate_Suc)
qed

section \<open>The claims\<close>

text \<open>
  C1: Unlock of the Mutex adds \<open>-mutexLocked\<close> and panics exactly when the state after the
  add is not \<open>mutexUnlocked\<close>, which is exactly when the lock was not held on entry. On a
  locked mutex it returns and leaves the state \<open>mutexUnlocked\<close>; on a mutex that was never
  locked it panics.
\<close>

theorem Unlock_panics_iff_not_locked:
  "(let m' = m\<lparr>Mutex.state := Mutex.state m - mutexLocked\<rparr> in
      call 1 Mutex_Unlock () m =
        Some ([Add (- mutexLocked)],
              (if Mutex.state m' \<noteq> mutexUnlocked
               then Panic ''spinlock: unlock of unlocked mutex'' else Return ()),
              m')
      \<and> (Mutex.state m' \<noteq> mutexUnlocked \<longleftrightarrow> Mutex.state m \<noteq> mutexLocked))
   \<and> call 1 Mutex_Unlock () \<lparr>Mutex.state = mutexLocked\<rparr>
     = Some ([Add (- mutexLocked)], Return (), \<lparr>Mutex.state = mutexUnlocked\<rparr>)
   \<and> call 1 Mutex_Unlock () zeroMutex
     = Some ([Add (- mutexLocked)], Panic ''spinlock: unlock of unlocked mutex'',
             \<lparr>Mutex.state = - 1\<rparr>)"
  by (simp add: Let_def Mutex_Unlock_call mutex_constants zeroMutex_def)

text \<open>
  C2: RUnlock adds \<open>rwmutexReaderDecrease\<close>, which is \<open>-rwmutexReadOffset\<close> modulo \<open>2^32\<close>.
  It panics exactly when no reader was counted on entry, which is exactly when bits 1 to 31
  of the new state are all set. With a reader counted it returns, the count is one less and
  the write flag is as before.
\<close>

theorem RUnlock_panics_iff_underflow:
  "(let rw' = rw\<lparr>RWMutex.state := RWMutex.state rw - rwmutexReadOffset\<rparr> in
     call 1 RWMutex_RUnlock () rw =
       Some ([Add rwmutexReaderDecrease],
             (if readerCount rw = 0 then Panic ''spinlock: RUnlock of unlocked RWMutex''
              else Return ()),
             rw')
     \<and> rwmutexReaderDecrease = - rwmutexReadOffset
     \<and> unat (RWMutex.state rw') = (unat (RWMutex.state rw) + (2 ^ 32 - 2)) mod 2 ^ 32
     \<and> (readerCount rw = 0 \<longleftrightarrow> (\<forall>i. 1 \<le> i \<and> i < 32 \<longrightarrow> bit (RWMutex.state rw') i))
     \<and> (readerCount rw \<noteq> 0 \<longrightarrow>
          readerCount rw' = readerCount rw - 1 \<and> writeFlag rw' = writeFlag rw))"
proof -
  let ?s = "RWMutex.state rw"
  let ?rw' = "rw\<lparr>RWMutex.state := ?s - rwmutexReadOffset\<rparr>"
  have s': "RWMutex.state ?rw' = ?s - 2"
    by (simp add: rwmutex_constants)
  have a: "call 1 RWMutex_RUnlock () rw =
       Some ([Add rwmutexReaderDecrease],
             (if readerCount rw = 0 then Panic ''spinlock: RUnlock of unlocked RWMutex''
              else Return ()), ?rw')"
    by (simp add: RWMutex_RUnlock_call)
  have b: "rwmutexReaderDecrease = - rwmutexReadOffset"
    by (simp add: rwmutex_constants)
  have c: "unat (RWMutex.state ?rw') = (unat ?s + (2 ^ 32 - 2)) mod 2 ^ 32"
    unfolding s' by (rule sub_2_mod)
  have d: "readerCount rw = 0 \<longleftrightarrow> (\<forall>i. 1 \<le> i \<and> i < 32 \<longrightarrow> bit (RWMutex.state ?rw') i)"
    unfolding s' readerCount_def
    using underflow_iff_no_reader [of ?s] upper_bits_set_iff [of "?s - 2"] by blast
  have e: "readerCount rw \<noteq> 0 \<longrightarrow> readerCount ?rw' = readerCount rw - 1"
    unfolding readerCount_def s' using count_sub_2 [of ?s] by blast
  have f: "writeFlag ?rw' = writeFlag rw"
    unfolding writeFlag_def s' by (rule bit0_sub_2)
  from a b c d e f show ?thesis
    unfolding Let_def by blast
qed

theorem RUnlock_panics_iff_underflow_witness:
  "readerCount \<lparr>RWMutex.state = 4\<rparr> \<noteq> 0
   \<and> call 1 RWMutex_RUnlock () \<lparr>RWMutex.state = 4\<rparr>
       = Some ([Add rwmutexReaderDecrease], Return (), \<lparr>RWMutex.state = 2\<rparr>)
   \<and> readerCount \<lparr>RWMutex.state = 2\<rparr> = 1
   \<and> \<not> writeFlag \<lparr>RWMutex.state = 2\<rparr>"
  using RUnlock_panics_iff_underflow [of "\<lparr>RWMutex.state = 4\<rparr>"]
  by (simp add: Let_def readerCount_def writeFlag_def rwmutex_constants)

text \<open>
  C3: the write Unlock adds \<open>rwmutexWriterUnset\<close>, which is \<open>-rwmutexWrite\<close>. It panics
  exactly when the write flag was not set on entry. When the flag was set, the new state is
  the old one with bit 0 cleared and the reader count unchanged; from the write-locked state
  it returns and leaves the state \<open>rwmutexUnlocked\<close>.
\<close>

theorem Unlock_clears_write_flag:
  "(let rw' = rw\<lparr>RWMutex.state := RWMutex.state rw - rwmutexWrite\<rparr> in
     call 1 RWMutex_Unlock () rw =
       Some ([Add rwmutexWriterUnset],
             (if writeFlag rw then Return () else Panic ''sync: Unlock of unlocked RWMutex''),
             rw')
     \<and> rwmutexWriterUnset = - rwmutexWrite
     \<and> (writeFlag rw \<longrightarrow>
          \<not> writeFlag rw' \<and> readerCount rw' = readerCount rw
          \<and> RWMutex.state rw' = RWMutex.state rw AND NOT rwmutexWrite)
     \<and> (RWMutex.state rw = rwmutexWrite \<longrightarrow>
          writeFlag rw \<and> readerCount rw = 0 \<and> RWMutex.state rw' = rwmutexUnlocked))"
proof -
  let ?s = "RWMutex.state rw"
  let ?rw' = "rw\<lparr>RWMutex.state := ?s - rwmutexWrite\<rparr>"
  have s': "RWMutex.state ?rw' = ?s - 1"
    by (simp add: rwmutex_constants)
  have a: "call 1 RWMutex_Unlock () rw =
       Some ([Add rwmutexWriterUnset],
             (if writeFlag rw then Return () else Panic ''sync: Unlock of unlocked RWMutex''),
             ?rw')"
    by (simp add: RWMutex_Unlock_call)
  have b: "rwmutexWriterUnset = - rwmutexWrite"
    by (simp add: rwmutex_constants)
  have c: "writeFlag rw \<longrightarrow> \<not> writeFlag ?rw'"
    unfolding writeFlag_def s' by (simp add: bit0_sub_1)
  have d: "writeFlag rw \<longrightarrow> readerCount ?rw' = readerCount rw"
    unfolding writeFlag_def readerCount_def s' using count_sub_1 [of ?s] by simp
  have e: "writeFlag rw \<longrightarrow> RWMutex.state ?rw' = ?s AND NOT rwmutexWrite"
    unfolding writeFlag_def s' using sub_1_clears_bit0 [of ?s]
    by (simp add: rwmutex_constants)
  have f: "?s = rwmutexWrite \<longrightarrow>
      writeFlag rw \<and> readerCount rw = 0 \<and> RWMutex.state ?rw' = rwmutexUnlocked"
    unfolding s' by (simp add: writeFlag_def readerCount_def rwmutex_constants rwmutexUnlocked_def)
  from a b c d e f show ?thesis
    unfolding Let_def by blast
qed

theorem Unlock_clears_write_flag_witness:
  "writeFlag \<lparr>RWMutex.state = 7\<rparr>
   \<and> call 1 RWMutex_Unlock () \<lparr>RWMutex.state = 7\<rparr>
       = Some ([Add rwmutexWriterUnset], Return (), \<lparr>RWMutex.state = 6\<rparr>)
   \<and> \<not> writeFlag \<lparr>RWMutex.state = 6\<rparr>
   \<and> readerCount \<lparr>RWMutex.state = 6\<rparr> = readerCount \<lparr>RWMutex.state = 7\<rparr>
   \<and> writeFlag \<lparr>RWMutex.state = rwmutexWrite\<rparr>
   \<and> call 1 RWMutex_Unlock () \<lparr>RWMutex.state = rwmutexWrite\<rparr>
       = Some ([Add rwmutexWriterUnset], Return (), \<lparr>RWMutex.state = rwmutexUnlocked\<rparr>)"
  using Unlock_clears_write_flag [of "\<lparr>RWMutex.state = 7\<rparr>"]
    Unlock_clears_write_flag [of "\<lparr>RWMutex.state = rwmutexWrite\<rparr>"]
  by (simp add: Let_def readerCount_def writeFlag_def rwmutex_constants rwmutexUnlocked_def)

text \<open>
  C4: TryLock of the RWMutex is one compare-and-swap from \<open>rwmutexUnlocked\<close> to
  \<open>rwmutexWrite\<close>. It succeeds exactly when no reader is counted and the write flag is
  clear, returns whether it succeeded, and leaves the lock as it was when it failed; with a
  reader counted it returns false. Lock returns only from a successful compare-and-swap,
  whatever the other goroutines do, and leaves the write flag set and no reader counted;
  alone on a lock that is not free it never returns.
\<close>

theorem write_lock_only_from_unlocked:
  "call 1 RWMutex_TryLock () rw =
     Some ([CAS (RWMutex.state rw = rwmutexUnlocked)],
           Return (RWMutex.state rw = rwmutexUnlocked),
           if RWMutex.state rw = rwmutexUnlocked then rw\<lparr>RWMutex.state := rwmutexWrite\<rparr>
           else rw)
   \<and> (RWMutex.state rw = rwmutexUnlocked \<longleftrightarrow> readerCount rw = 0 \<and> \<not> writeFlag rw)
   \<and> writeFlag (rw\<lparr>RWMutex.state := rwmutexWrite\<rparr>)
   \<and> readerCount (rw\<lparr>RWMutex.state := rwmutexWrite\<rparr>) = 0
   \<and> (readerCount rw \<noteq> 0 \<longrightarrow>
        call 1 RWMutex_TryLock () rw = Some ([CAS False], Return False, rw))
   \<and> (run fs RWMutex_Lock Attempt rw = Some (es, r, rw') \<longrightarrow>
        r = Return () \<and> RWMutex.state rw' = rwmutexWrite
        \<and> (\<exists>k. es = concat (replicate k [CAS False, Gosched]) @ [CAS True]))
   \<and> (RWMutex.state rw = rwmutexUnlocked \<longrightarrow>
        call 1 RWMutex_Lock Attempt rw
          = Some ([CAS True], Return (), rw\<lparr>RWMutex.state := rwmutexWrite\<rparr>))
   \<and> (RWMutex.state rw \<noteq> rwmutexUnlocked \<longrightarrow> call n RWMutex_Lock Attempt rw = None)"
proof -
  have a: "call 1 RWMutex_TryLock () rw =
     Some ([CAS (RWMutex.state rw = rwmutexUnlocked)],
           Return (RWMutex.state rw = rwmutexUnlocked),
           if RWMutex.state rw = rwmutexUnlocked then rw\<lparr>RWMutex.state := rwmutexWrite\<rparr>
           else rw)"
    by (simp add: RWMutex_TryLock_call)
  have b: "RWMutex.state rw = rwmutexUnlocked \<longleftrightarrow> readerCount rw = 0 \<and> \<not> writeFlag rw"
    unfolding rwmutexUnlocked_def readerCount_def writeFlag_def
    by (rule zero_iff_no_reader_no_writer)
  have c: "writeFlag (rw\<lparr>RWMutex.state := rwmutexWrite\<rparr>)
      \<and> readerCount (rw\<lparr>RWMutex.state := rwmutexWrite\<rparr>) = 0"
    by (simp add: writeFlag_def readerCount_def rwmutex_constants)
  have d: "readerCount rw \<noteq> 0 \<longrightarrow>
        call 1 RWMutex_TryLock () rw = Some ([CAS False], Return False, rw)"
    using b by (simp add: RWMutex_TryLock_call)
  have e: "run fs RWMutex_Lock Attempt rw = Some (es, r, rw') \<longrightarrow>
        r = Return () \<and> RWMutex.state rw' = rwmutexWrite
        \<and> (\<exists>k. es = concat (replicate k [CAS False, Gosched]) @ [CAS True])"
    using RWMutex_Lock_run [of fs rw es r rw'] by auto
  have f: "RWMutex.state rw = rwmutexUnlocked \<longrightarrow>
        call 1 RWMutex_Lock Attempt rw
          = Some ([CAS True], Return (), rw\<lparr>RWMutex.state := rwmutexWrite\<rparr>)"
    by (simp add: call_1 RWMutex_Lock_Attempt del: RWMutex_Lock.simps(1))
  have g: "RWMutex.state rw \<noteq> rwmutexUnlocked \<longrightarrow> call n RWMutex_Lock Attempt rw = None"
    using spin_yield_alone [of RWMutex_Lock, OF RWMutex_Lock_Attempt RWMutex_Lock.simps(2)]
    by blast
  from a b c d e f g show ?thesis
    by blast
qed

theorem write_lock_only_from_unlocked_witness:
  "readerCount \<lparr>RWMutex.state = 6\<rparr> \<noteq> 0
   \<and> call 1 RWMutex_TryLock () \<lparr>RWMutex.state = 6\<rparr>
       = Some ([CAS False], Return False, \<lparr>RWMutex.state = 6\<rparr>)
   \<and> RWMutex.state \<lparr>RWMutex.state = 6\<rparr> \<noteq> rwmutexUnlocked
   \<and> call 5 RWMutex_Lock Attempt \<lparr>RWMutex.state = 6\<rparr> = None
   \<and> run [id, id, \<lambda>rw. rw\<lparr>RWMutex.state := 0\<rparr>] RWMutex_Lock Attempt \<lparr>RWMutex.state = 6\<rparr>
       = Some ([CAS False, Gosched, CAS True], Return (), \<lparr>RWMutex.state = rwmutexWrite\<rparr>)
   \<and> RWMutex.state zeroRWMutex = rwmutexUnlocked
   \<and> call 1 RWMutex_Lock Attempt zeroRWMutex
       = Some ([CAS True], Return (), \<lparr>RWMutex.state = rwmutexWrite\<rparr>)
   \<and> call 1 RWMutex_TryLock () zeroRWMutex
       = Some ([CAS True], Return True, \<lparr>RWMutex.state = rwmutexWrite\<rparr>)"
proof -
  have r: "run [id, id, \<lambda>rw. rw\<lparr>RWMutex.state := 0\<rparr>] RWMutex_Lock Attempt
       \<lparr>RWMutex.state = 6\<rparr>
       = Some ([CAS False, Gosched, CAS True], Return (), \<lparr>RWMutex.state = rwmutexWrite\<rparr>)"
    by (simp add: CompareAndSwapUint32_def rwmutexUnlocked_def rwmutex_constants)
  have n: "readerCount \<lparr>RWMutex.state = 6\<rparr> \<noteq> 0
      \<and> RWMutex.state \<lparr>RWMutex.state = 6\<rparr> \<noteq> rwmutexUnlocked"
    by (simp add: readerCount_def rwmutexUnlocked_def)
  show ?thesis
    using r n
      write_lock_only_from_unlocked [of "\<lparr>RWMutex.state = 6\<rparr>"
        "[id, id, \<lambda>rw. rw\<lparr>RWMutex.state := 0\<rparr>]" "[CAS False, Gosched, CAS True]"
        "Return ()" "\<lparr>RWMutex.state = rwmutexWrite\<rparr>" 5]
      write_lock_only_from_unlocked [of zeroRWMutex "[]" "[]" "Return ()" zeroRWMutex 0]
    by (simp add: zeroRWMutex_def rwmutexUnlocked_def)
qed

text \<open>
  C5: TryRLock adds \<open>rwmutexReadOffset\<close>; the write flag of the incremented state is the
  write flag on entry. With the flag clear it returns true and the reader count is one more
  (below the largest count the word holds). With the flag set it adds
  \<open>rwmutexReaderDecrease\<close> in a second atomic step and returns false; with no other
  goroutine in between, the lock on return is the lock on entry. What another goroutine
  does between the two steps stays: the second step takes \<open>rwmutexReadOffset\<close> from the
  state it finds.
\<close>

theorem TryRLock_undoes_increment:
  "call 2 RWMutex_TryRLock TryIncrease rw =
     Some (if writeFlag rw
           then ([Add rwmutexReadOffset, Add rwmutexReaderDecrease], Return False, rw)
           else ([Add rwmutexReadOffset], Return True,
                 rw\<lparr>RWMutex.state := RWMutex.state rw + rwmutexReadOffset\<rparr>))
   \<and> writeFlag (rw\<lparr>RWMutex.state := RWMutex.state rw + rwmutexReadOffset\<rparr>) = writeFlag rw
   \<and> (readerCount rw < 2 ^ 31 - 1 \<longrightarrow>
        readerCount (rw\<lparr>RWMutex.state := RWMutex.state rw + rwmutexReadOffset\<rparr>)
          = readerCount rw + 1)
   \<and> (writeFlag (f rw) \<longrightarrow>
        run [f, g] RWMutex_TryRLock TryIncrease rw =
          (let rw1 = (f rw)\<lparr>RWMutex.state := RWMutex.state (f rw) + rwmutexReadOffset\<rparr>;
               rw2 = g rw1
           in Some ([Add rwmutexReadOffset, Add rwmutexReaderDecrease], Return False,
                    rw2\<lparr>RWMutex.state := RWMutex.state rw2 - rwmutexReadOffset\<rparr>)))"
proof -
  let ?rw1 = "rw\<lparr>RWMutex.state := RWMutex.state rw + rwmutexReadOffset\<rparr>"
  have a: "call 2 RWMutex_TryRLock TryIncrease rw =
     Some (if writeFlag rw
           then ([Add rwmutexReadOffset, Add rwmutexReaderDecrease], Return False, rw)
           else ([Add rwmutexReadOffset], Return True, ?rw1))"
    by (simp add: call_2 RWMutex_TryRLock_TryIncrease RWMutex_TryRLock_Undo
        del: RWMutex_TryRLock.simps)
  have b: "writeFlag ?rw1 = writeFlag rw"
    by (simp add: writeFlag_def rwmutex_constants bit0_add_2)
  have c: "readerCount rw < 2 ^ 31 - 1 \<longrightarrow> readerCount ?rw1 = readerCount rw + 1"
    unfolding readerCount_def using count_add_2 [of "RWMutex.state rw"]
    by (simp add: rwmutex_constants)
  have d: "writeFlag (f rw) \<longrightarrow>
        run [f, g] RWMutex_TryRLock TryIncrease rw =
          (let rw1 = (f rw)\<lparr>RWMutex.state := RWMutex.state (f rw) + rwmutexReadOffset\<rparr>;
               rw2 = g rw1
           in Some ([Add rwmutexReadOffset, Add rwmutexReaderDecrease], Return False,
                    rw2\<lparr>RWMutex.state := RWMutex.state rw2 - rwmutexReadOffset\<rparr>))"
    by (simp add: Let_def RWMutex_TryRLock_TryIncrease RWMutex_TryRLock_Undo
        del: RWMutex_TryRLock.simps)
  from a b c d show ?thesis
    by blast
qed

theorem TryRLock_undoes_increment_witness:
  "writeFlag \<lparr>RWMutex.state = rwmutexWrite\<rparr>
   \<and> call 2 RWMutex_TryRLock TryIncrease \<lparr>RWMutex.state = rwmutexWrite\<rparr>
       = Some ([Add rwmutexReadOffset, Add rwmutexReaderDecrease], Return False,
               \<lparr>RWMutex.state = rwmutexWrite\<rparr>)
   \<and> readerCount \<lparr>RWMutex.state = 4\<rparr> < 2 ^ 31 - 1
   \<and> call 2 RWMutex_TryRLock TryIncrease \<lparr>RWMutex.state = 4\<rparr>
       = Some ([Add rwmutexReadOffset], Return True, \<lparr>RWMutex.state = 6\<rparr>)
   \<and> readerCount \<lparr>RWMutex.state = 6\<rparr> = readerCount \<lparr>RWMutex.state = 4\<rparr> + 1
   \<and> run [id, \<lambda>rw. rw\<lparr>RWMutex.state := RWMutex.state rw + rwmutexReadOffset\<rparr>]
         RWMutex_TryRLock TryIncrease \<lparr>RWMutex.state = rwmutexWrite\<rparr>
       = Some ([Add rwmutexReadOffset, Add rwmutexReaderDecrease], Return False,
               \<lparr>RWMutex.state = 3\<rparr>)"
  using TryRLock_undoes_increment [of "\<lparr>RWMutex.state = rwmutexWrite\<rparr>" id
      "\<lambda>rw. rw\<lparr>RWMutex.state := RWMutex.state rw + rwmutexReadOffset\<rparr>"]
    TryRLock_undoes_increment [of "\<lparr>RWMutex.state = 4\<rparr>" id id]
  by (simp add: Let_def writeFlag_def readerCount_def rwmutex_constants)

text \<open>
  C6: Lock of the Mutex returns only from a successful compare-and-swap from
  \<open>mutexUnlocked\<close> to \<open>mutexLocked\<close>, whatever the other goroutines do, and leaves the
  state \<open>mutexLocked\<close>. Every failed attempt is followed by one \<open>runtime.Gosched\<close> before
  the next attempt. On an unlocked mutex it succeeds at the first attempt; alone on a mutex
  that is not unlocked it never returns.
\<close>

theorem Lock_returns_after_CAS:
  "(run fs Mutex_Lock Attempt m = Some (es, r, m') \<longrightarrow>
      r = Return () \<and> Mutex.state m' = mutexLocked
      \<and> (\<exists>k t. es = concat (replicate k [CAS False, Gosched]) @ [CAS True]
            \<and> Mutex.state t = mutexUnlocked \<and> m' = t\<lparr>Mutex.state := mutexLocked\<rparr>))
   \<and> (Mutex.state m = mutexUnlocked \<longrightarrow>
        call 1 Mutex_Lock Attempt m
          = Some ([CAS True], Return (), m\<lparr>Mutex.state := mutexLocked\<rparr>))
   \<and> (Mutex.state m \<noteq> mutexUnlocked \<longrightarrow> call n Mutex_Lock Attempt m = None)"
proof -
  have a: "run fs Mutex_Lock Attempt m = Some (es, r, m') \<longrightarrow>
      r = Return () \<and> Mutex.state m' = mutexLocked
      \<and> (\<exists>k t. es = concat (replicate k [CAS False, Gosched]) @ [CAS True]
            \<and> Mutex.state t = mutexUnlocked \<and> m' = t\<lparr>Mutex.state := mutexLocked\<rparr>)"
    using Mutex_Lock_run [of fs m es r m'] by auto
  have d: "Mutex.state m = mutexUnlocked \<longrightarrow>
        call 1 Mutex_Lock Attempt m
          = Some ([CAS True], Return (), m\<lparr>Mutex.state := mutexLocked\<rparr>)"
    by (simp add: Mutex_Lock_call)
  have e: "Mutex.state m \<noteq> mutexUnlocked \<longrightarrow> call n Mutex_Lock Attempt m = None"
    using spin_yield_alone [of Mutex_Lock, OF Mutex_Lock_Attempt Mutex_Lock.simps(2)]
    by blast
  from a d e show ?thesis
    by blast
qed

theorem Lock_returns_after_CAS_witness:
  "run [id, id, \<lambda>m. m\<lparr>Mutex.state := mutexUnlocked\<rparr>] Mutex_Lock Attempt
       \<lparr>Mutex.state = mutexLocked\<rparr>
     = Some ([CAS False, Gosched, CAS True], Return (), \<lparr>Mutex.state = mutexLocked\<rparr>)
   \<and> Mutex.state zeroMutex = mutexUnlocked
   \<and> call 1 Mutex_Lock Attempt zeroMutex
     = Some ([CAS True], Return (), \<lparr>Mutex.state = mutexLocked\<rparr>)
   \<and> Mutex.state \<lparr>Mutex.state = mutexLocked\<rparr> \<noteq> mutexUnlocked
   \<and> call 7 Mutex_Lock Attempt \<lparr>Mutex.state = mutexLocked\<rparr> = None"
proof -
  have a: "run [id, id, \<lambda>m. m\<lparr>Mutex.state := mutexUnlocked\<rparr>] Mutex_Lock Attempt
       \<lparr>Mutex.state = mutexLocked\<rparr>
     = Some ([CAS False, Gosched, CAS True], Return (), \<lparr>Mutex.state = mutexLocked\<rparr>)"
    by (simp add: CompareAndSwapInt32_def mutex_constants)
  have z: "Mutex.state zeroMutex = mutexUnlocked
      \<and> Mutex.state \<lparr>Mutex.state = mutexLocked\<rparr> \<noteq> mutexUnlocked"
    by (simp add: zeroMutex_def mutex_constants)
  show ?thesis
    using a z
      Lock_returns_after_CAS [of "[id, id, \<lambda>m. m\<lparr>Mutex.state := mutexUnlocked\<rparr>]"
        "\<lparr>Mutex.state = mutexLocked\<rparr>" "[CAS False, Gosched, CAS True]" "Return ()"
        "\<lparr>Mutex.state = mutexLocked\<rparr>" 7]
      Lock_returns_after_CAS [of "[]" zeroMutex "[]" "Return ()" zeroMutex 0]
    by (simp add: zeroMutex_def mutex_constants)
qed

text \<open>
  C7, as the code has it: starting from the zero RWMutex, take any sequence of RLock and RUnlock calls in which
  every call returns normally and the two kinds of call are equal in number, in whatever
  order they take effect. The state at the end is \<open>rwmutexUnlocked\<close>: every RLock added
  \<open>rwmutexReadOffset\<close> and every RUnlock took it away. And when every RUnlock of the
  sequence has its RLock before it (with fewer than \<open>2^31\<close> read locks held at a time),
  every call does return normally.
\<close>

theorem RLock_RUnlock_round_trip:
  "(reader_calls n cs zeroRWMutex = Some rw'
      \<and> count_list cs RLockCall = count_list cs RUnlockCall
      \<longrightarrow> RWMutex.state rw' = rwmutexUnlocked)
   \<and> (matched 0 cs \<and> count_list cs RLockCall = count_list cs RUnlockCall
      \<longrightarrow> reader_calls (Suc k) cs zeroRWMutex = Some zeroRWMutex)"
proof -
  have a: "reader_calls n cs zeroRWMutex = Some rw'
      \<and> count_list cs RLockCall = count_list cs RUnlockCall
      \<longrightarrow> RWMutex.state rw' = rwmutexUnlocked"
  proof (intro impI, elim conjE)
    assume r: "reader_calls n cs zeroRWMutex = Some rw'"
      and c: "count_list cs RLockCall = count_list cs RUnlockCall"
    from reader_calls_state [OF r] c show "RWMutex.state rw' = rwmutexUnlocked"
      by (simp add: zeroRWMutex_def rwmutexUnlocked_def)
  qed
  have b: "matched 0 cs \<and> count_list cs RLockCall = count_list cs RUnlockCall
      \<longrightarrow> reader_calls (Suc k) cs zeroRWMutex = Some zeroRWMutex"
  proof (intro impI, elim conjE)
    assume m: "matched 0 cs"
      and c: "count_list cs RLockCall = count_list cs RUnlockCall"
    from matched_calls_return [OF m, of k] c
    show "reader_calls (Suc k) cs zeroRWMutex = Some zeroRWMutex"
      by (simp add: zeroRWMutex_def)
  qed
  from a b show ?thesis
    by blast
qed

theorem RLock_RUnlock_round_trip_witness:
  "matched 0 [RLockCall, RLockCall, RUnlockCall, RLockCall, RUnlockCall, RUnlockCall]
   \<and> count_list [RLockCall, RLockCall, RUnlockCall, RLockCall, RUnlockCall, RUnlockCall]
        RLockCall
     = count_list [RLockCall, RLockCall, RUnlockCall, RLockCall, RUnlockCall, RUnlockCall]
        RUnlockCall
   \<and> reader_calls 1 [RLockCall, RLockCall, RUnlockCall, RLockCall, RUnlockCall, RUnlockCall]
        zeroRWMutex = Some zeroRWMutex
   \<and> RWMutex.state zeroRWMutex = rwmutexUnlocked"
proof -
  let ?cs = "[RLockCall, RLockCall, RUnlockCall, RLockCall, RUnlockCall, RUnlockCall]"
  have m: "matched 0 ?cs"
    by simp
  have c: "count_list ?cs RLockCall = count_list ?cs RUnlockCall"
    by simp
  have e: "reader_calls 1 ?cs zeroRWMutex = Some zeroRWMutex"
    using RLock_RUnlock_round_trip [of 1 ?cs zeroRWMutex 0] m c by simp
  from RLock_RUnlock_round_trip [of 1 ?cs zeroRWMutex 0] e c m show ?thesis
    by blast
qed

text \<open>
  C7, as stated for any \<open>n\<close>, fails at \<open>n = 2^31\<close>: from the zero RWMutex \<open>2^31\<close> calls
  of RLock all return and the state word wraps around to \<open>rwmutexUnlocked\<close>; the first
  RUnlock then panics and leaves \<open>0xFFFFFFFE\<close>, so the matching RUnlock calls do not bring
  the state back to \<open>0\<close>.
\<close>

theorem RLock_count_wraps:
  "reader_calls 1 (replicate (2 ^ 31) RLockCall) zeroRWMutex = Some zeroRWMutex
   \<and> call 1 RWMutex_RUnlock () zeroRWMutex
       = Some ([Add rwmutexReaderDecrease], Panic ''spinlock: RUnlock of unlocked RWMutex'',
               \<lparr>RWMutex.state = 0xFFFFFFFE\<rparr>)
   \<and> reader_calls 1 (replicate (2 ^ 31) RLockCall @ replicate (2 ^ 31) RUnlockCall)
         zeroRWMutex = None"
proof -
  have a: "reader_calls 1 (replicate (2 ^ 31) RLockCall @ []) zeroRWMutex = Some zeroRWMutex"
    unfolding zeroRWMutex_def One_nat_def
    by (subst RLock_calls_add) (simp_all add: wrap_2_31)
  have c: "call 1 RWMutex_RUnlock () zeroRWMutex
       = Some ([Add rwmutexReaderDecrease], Panic ''spinlock: RUnlock of unlocked RWMutex'',
               \<lparr>RWMutex.state = 0xFFFFFFFE\<rparr>)"
    by (simp add: RWMutex_RUnlock_call zeroRWMutex_def readerCount_def rwmutex_constants)
  have "reader_calls 1
          (replicate (2 ^ 31) RLockCall @ RUnlockCall # replicate (2 ^ 31 - 1) RUnlockCall)
          zeroRWMutex = None"
    unfolding zeroRWMutex_def One_nat_def
    by (subst RLock_calls_add)
      (simp_all add: wrap_2_31 reader_calls_RUnlock readerCount_def del: reader_calls.simps(3))
  then have b: "reader_calls 1 (replicate (2 ^ 31) RLockCall @ replicate (2 ^ 31) RUnlockCall)
         zeroRWMutex = None"
    by (simp only: first_of_2_31 [of RUnlockCall])
  from a b c show ?thesis
    by simp
qed

text \<open>
  C8: the zero value of each lock is an unlocked lock: TryLock succeeds on a zero Mutex,
  and both TryLock and TryRLock succeed on a zero RWMutex.
\<close>

theorem zero_value_unlocked:
  "call 1 Mutex_TryLock () zeroMutex
     = Some ([CAS True], Return True, \<lparr>Mutex.state = mutexLocked\<rparr>)
   \<and> call 1 RWMutex_TryLock () zeroRWMutex
     = Some ([CAS True], Return True, \<lparr>RWMutex.state = rwmutexWrite\<rparr>)
   \<and> call 1 RWMutex_TryRLock TryIncrease zeroRWMutex
     = Some ([Add rwmutexReadOffset], Return True, \<lparr>RWMutex.state = rwmutexReadOffset\<rparr>)"
  by (simp add: call_1 zeroMutex_def zeroRWMutex_def CompareAndSwapInt32_def
      CompareAndSwapUint32_def AddUint32_def mutex_constants
      rwmutexUnlocked_def rwmutex_constants)

text \<open>
  C9: a method that panics has already stored the result of its atomic add, and nothing
  restores the old state. A panicking Unlock of the Mutex leaves the state one less, which
  from a legal state is \<open>-1\<close> and not a legal value; a panicking RUnlock leaves the
  underflowed state, all reader bits set; a panicking write Unlock leaves the decremented
  state, with the write flag set. From the zero RWMutex the write Unlock leaves the write
  flag set together with a reader count that is not zero.
\<close>

theorem panic_keeps_update:
  "(call 1 Mutex_Unlock () m = Some (es, Panic msg, m') \<longrightarrow>
      Mutex.state m' = Mutex.state m - mutexLocked
      \<and> (Mutex.state m \<in> {mutexUnlocked, mutexLocked} \<longrightarrow>
           Mutex.state m' = mutexUnlocked - mutexLocked \<and> sint (Mutex.state m') = - 1
           \<and> Mutex.state m' \<notin> {mutexUnlocked, mutexLocked}))
   \<and> (call 1 RWMutex_RUnlock () rw = Some (es1, Panic msg1, rw1) \<longrightarrow>
      RWMutex.state rw1 = RWMutex.state rw - rwmutexReadOffset
      \<and> RWMutex.state rw1 AND rwmutexUnderflow = rwmutexUnderflow
      \<and> readerCount rw = 0 \<and> readerCount rw1 = 2 ^ 31 - 1)
   \<and> (call 1 RWMutex_Unlock () rw = Some (es2, Panic msg2, rw2) \<longrightarrow>
      RWMutex.state rw2 = RWMutex.state rw - rwmutexWrite
      \<and> \<not> writeFlag rw \<and> writeFlag rw2)
   \<and> call 1 RWMutex_Unlock () zeroRWMutex
       = Some ([Add rwmutexWriterUnset], Panic ''sync: Unlock of unlocked RWMutex'',
               \<lparr>RWMutex.state = - 1\<rparr>)
   \<and> writeFlag \<lparr>RWMutex.state = - 1\<rparr> \<and> readerCount \<lparr>RWMutex.state = - 1\<rparr> = 2 ^ 31 - 1"
proof -
  have a: "call 1 Mutex_Unlock () m = Some (es, Panic msg, m') \<longrightarrow>
      Mutex.state m' = Mutex.state m - mutexLocked
      \<and> (Mutex.state m \<in> {mutexUnlocked, mutexLocked} \<longrightarrow>
           Mutex.state m' = mutexUnlocked - mutexLocked \<and> sint (Mutex.state m') = - 1
           \<and> Mutex.state m' \<notin> {mutexUnlocked, mutexLocked})"
    by (auto simp: Mutex_Unlock_call mutex_constants split: if_splits)
  have b: "call 1 RWMutex_RUnlock () rw = Some (es1, Panic msg1, rw1) \<longrightarrow>
      RWMutex.state rw1 = RWMutex.state rw - rwmutexReadOffset
      \<and> RWMutex.state rw1 AND rwmutexUnderflow = rwmutexUnderflow
      \<and> readerCount rw = 0 \<and> readerCount rw1 = 2 ^ 31 - 1"
    using count_after_underflow [of "RWMutex.state rw"]
      underflow_iff_no_reader [of "RWMutex.state rw"]
    by (auto simp: RWMutex_RUnlock_call rwmutex_constants readerCount_def split: if_splits)
  have c: "call 1 RWMutex_Unlock () rw = Some (es2, Panic msg2, rw2) \<longrightarrow>
      RWMutex.state rw2 = RWMutex.state rw - rwmutexWrite
      \<and> \<not> writeFlag rw \<and> writeFlag rw2"
    by (auto simp: RWMutex_Unlock_call rwmutex_constants writeFlag_def bit0_sub_1
        split: if_splits)
  have d: "call 1 RWMutex_Unlock () zeroRWMutex
       = Some ([Add rwmutexWriterUnset], Panic ''sync: Unlock of unlocked RWMutex'',
               \<lparr>RWMutex.state = - 1\<rparr>)"
    by (simp add: RWMutex_Unlock_call zeroRWMutex_def writeFlag_def rwmutex_constants)
  have e: "writeFlag \<lparr>RWMutex.state = - 1\<rparr> \<and> readerCount \<lparr>RWMutex.state = - 1\<rparr> = 2 ^ 31 - 1"
    by (simp add: writeFlag_def readerCount_def mask_eq_exp_minus_1)
  from a b c d e show ?thesis
    by blast
qed

theorem panic_keeps_update_witness:
  "call 1 Mutex_Unlock () zeroMutex
     = Some ([Add (- mutexLocked)], Panic ''spinlock: unlock of unlocked mutex'',
             \<lparr>Mutex.state = - 1\<rparr>)
   \<and> Mutex.state zeroMutex \<in> {mutexUnlocked, mutexLocked}
   \<and> sint (Mutex.state \<lparr>Mutex.state = - 1\<rparr>) = - 1
   \<and> Mutex.state \<lparr>Mutex.state = - 1\<rparr> \<notin> {mutexUnlocked, mutexLocked}
   \<and> call 1 RWMutex_RUnlock () zeroRWMutex
     = Some ([Add rwmutexReaderDecrease], Panic ''spinlock: RUnlock of unlocked RWMutex'',
             \<lparr>RWMutex.state = - 2\<rparr>)
   \<and> readerCount \<lparr>RWMutex.state = - 2\<rparr> = 2 ^ 31 - 1
   \<and> call 1 RWMutex_Unlock () zeroRWMutex
     = Some ([Add rwmutexWriterUnset], Panic ''sync: Unlock of unlocked RWMutex'',
             \<lparr>RWMutex.state = - 1\<rparr>)
   \<and> writeFlag \<lparr>RWMutex.state = - 1\<rparr>"
proof -
  have m: "call 1 Mutex_Unlock () zeroMutex
     = Some ([Add (- mutexLocked)], Panic ''spinlock: unlock of unlocked mutex'',
             \<lparr>Mutex.state = - 1\<rparr>)"
    by (simp add: Mutex_Unlock_call zeroMutex_def mutex_constants)
  have r: "call 1 RWMutex_RUnlock () zeroRWMutex
     = Some ([Add rwmutexReaderDecrease], Panic ''spinlock: RUnlock of unlocked RWMutex'',
             \<lparr>RWMutex.state = - 2\<rparr>)"
    by (simp add: RWMutex_RUnlock_call zeroRWMutex_def readerCount_def rwmutex_constants)
  have u: "call 1 RWMutex_Unlock () zeroRWMutex
     = Some ([Add rwmutexWriterUnset], Panic ''sync: Unlock of unlocked RWMutex'',
             \<lparr>RWMutex.state = - 1\<rparr>)"
    by (simp add: RWMutex_Unlock_call zeroRWMutex_def writeFlag_def rwmutex_constants)
  have z: "Mutex.state zeroMutex \<in> {mutexUnlocked, mutexLocked}"
    by (simp add: zeroMutex_def mutex_constants)
  show ?thesis
    using m r u z
      panic_keeps_update [of zeroMutex "[Add (- mutexLocked)]"
        "''spinlock: unlock of unlocked mutex''" "\<lparr>Mutex.state = - 1\<rparr>"
        zeroRWMutex "[Add rwmutexReaderDecrease]" "''spinlock: RUnlock of unlocked RWMutex''"
        "\<lparr>RWMutex.state = - 2\<rparr>" "[Add rwmutexWriterUnset]"
        "''sync: Unlock of unlocked RWMutex''" "\<lparr>RWMutex.state = - 1\<rparr>"]
    by blast
qed

text \<open>
  C10: RUnlock with no reader counted panics whatever the write flag is: the new state has
  bits 1 to 31 all set. From the write-locked state it stores \<open>0xFFFFFFFF\<close> and panics, from
  the unlocked state it stores \<open>0xFFFFFFFE\<close> and panics.
\<close>

theorem RUnlock_without_reader_panics:
  "(readerCount rw = 0 \<longrightarrow>
      call 1 RWMutex_RUnlock () rw
        = Some ([Add rwmutexReaderDecrease], Panic ''spinlock: RUnlock of unlocked RWMutex'',
                rw\<lparr>RWMutex.state := RWMutex.state rw - rwmutexReadOffset\<rparr>)
      \<and> (\<forall>i. 1 \<le> i \<and> i < 32 \<longrightarrow> bit (RWMutex.state rw - rwmutexReadOffset) i))
   \<and> readerCount \<lparr>RWMutex.state = rwmutexWrite\<rparr> = 0
   \<and> writeFlag \<lparr>RWMutex.state = rwmutexWrite\<rparr>
   \<and> call 1 RWMutex_RUnlock () \<lparr>RWMutex.state = rwmutexWrite\<rparr>
        = Some ([Add rwmutexReaderDecrease], Panic ''spinlock: RUnlock of unlocked RWMutex'',
                \<lparr>RWMutex.state = 0xFFFFFFFF\<rparr>)
   \<and> call 1 RWMutex_RUnlock () \<lparr>RWMutex.state = rwmutexUnlocked\<rparr>
        = Some ([Add rwmutexReaderDecrease], Panic ''spinlock: RUnlock of unlocked RWMutex'',
                \<lparr>RWMutex.state = 0xFFFFFFFE\<rparr>)"
proof -
  let ?s = "RWMutex.state rw"
  have a: "readerCount rw = 0 \<longrightarrow>
      call 1 RWMutex_RUnlock () rw
        = Some ([Add rwmutexReaderDecrease], Panic ''spinlock: RUnlock of unlocked RWMutex'',
                rw\<lparr>RWMutex.state := ?s - rwmutexReadOffset\<rparr>)"
    by (simp add: RWMutex_RUnlock_call)
  have b: "readerCount rw = 0 \<longrightarrow> (\<forall>i. 1 \<le> i \<and> i < 32 \<longrightarrow> bit (?s - rwmutexReadOffset) i)"
    unfolding readerCount_def rwmutex_constants
    using underflow_iff_no_reader [of ?s] upper_bits_set_iff [of "?s - 2"] by blast
  have c: "readerCount \<lparr>RWMutex.state = rwmutexWrite\<rparr> = 0
      \<and> writeFlag \<lparr>RWMutex.state = rwmutexWrite\<rparr>"
    by (simp add: readerCount_def writeFlag_def rwmutex_constants)
  have d: "call 1 RWMutex_RUnlock () \<lparr>RWMutex.state = rwmutexWrite\<rparr>
        = Some ([Add rwmutexReaderDecrease], Panic ''spinlock: RUnlock of unlocked RWMutex'',
                \<lparr>RWMutex.state = 0xFFFFFFFF\<rparr>)"
    by (simp add: RWMutex_RUnlock_call readerCount_def rwmutex_constants)
  have e: "call 1 RWMutex_RUnlock () \<lparr>RWMutex.state = rwmutexUnlocked\<rparr>
        = Some ([Add rwmutexReaderDecrease], Panic ''spinlock: RUnlock of unlocked RWMutex'',
                \<lparr>RWMutex.state = 0xFFFFFFFE\<rparr>)"
    by (simp add: RWMutex_RUnlock_call readerCount_def rwmutex_constants rwmutexUnlocked_def)
  from a b c d e show ?thesis
    by blast
qed

theorem RUnlock_without_reader_panics_witness:
  "readerCount \<lparr>RWMutex.state = 1\<rparr> = 0
   \<and> call 1 RWMutex_RUnlock () \<lparr>RWMutex.state = 1\<rparr>
        = Some ([Add rwmutexReaderDecrease], Panic ''spinlock: RUnlock of unlocked RWMutex'',
                \<lparr>RWMutex.state = 0xFFFFFFFF\<rparr>)
   \<and> bit (0xFFFFFFFF :: 32 word) 1 \<and> bit (0xFFFFFFFF :: 32 word) 31"
  using RUnlock_without_reader_panics [of "\<lparr>RWMutex.state = 1\<rparr>"]
  by (simp add: readerCount_def rwmutex_constants)

end
